theory Spec2Isabelle
  imports Complex_Main "HOL-Library.Multiset"
begin

section \<open>Errors\<close>

text \<open>
  The Python exceptions the modelled code can raise. An \<open>assert\<close> raises
  \<open>AssertionError\<close> with its message; the messages of the source are the
  constructors of \<open>assertion\<close>.
\<close>

datatype assertion =
    JointOutOfBounds nat string
  | NoGoalConfiguration
  | ConfigurationSizeMismatch

datatype error =
    ValueError
  | IndexError
  | TypeError
  | AttributeError
  | AssertionError assertion

section \<open>robot.py: degree-of-freedom lookup tables\<close>

text \<open>
  A joint of the kinematic model, with the number of configuration scalars (\<open>nq\<close>)
  and of velocity scalars (\<open>nv\<close>) it contributes. Both are Python ints;
  \<open>range(n)\<close> is empty for a negative \<open>n\<close>, which is \<open>nat n = 0\<close>.
\<close>

record joint =
  nq :: int
  nv :: int

text \<open>\<open>xs.index(x)\<close>: the first position of \<open>x\<close>, \<open>ValueError\<close> when absent.\<close>

fun list_index :: "'a list \<Rightarrow> 'a \<Rightarrow> error + nat" where
  "list_index [] x = Inl ValueError"
| "list_index (y # ys) x =
     (if y = x then Inr 0
      else case list_index ys x of Inl e \<Rightarrow> Inl e | Inr k \<Rightarrow> Inr (Suc k))"

text \<open>
  ``enumerate all the DoF and group them by joint'': the running \<open>index\<close> is
  threaded through the joints, each joint taking the next \<open>size\<close> indices.
\<close>

fun group_dofs :: "nat \<Rightarrow> int list \<Rightarrow> nat list list" where
  "group_dofs index [] = []"
| "group_dofs index (n # ns) =
     [index ..< index + nat n] # group_dofs (index + nat n) ns"

text \<open>
  ``rearrange joints'': for each name of the new list, the block of the joint at the
  position of that name in \<open>pin_joint_names\<close>. \<open>index\<close> raises
  \<open>ValueError\<close>, the subscript raises \<open>IndexError\<close>.
\<close>

fun rearrange_joints :: "string list \<Rightarrow> nat list list \<Rightarrow> string list \<Rightarrow> error + nat list list" where
  "rearrange_joints pin_joint_names pin_to_pin [] = Inr []"
| "rearrange_joints pin_joint_names pin_to_pin (name # names) =
     (case list_index pin_joint_names name of
        Inl e \<Rightarrow> Inl e
      | Inr pin_index \<Rightarrow>
          if pin_index < length pin_to_pin then
            (case rearrange_joints pin_joint_names pin_to_pin names of
               Inl e \<Rightarrow> Inl e
             | Inr rest \<Rightarrow> Inr (pin_to_pin ! pin_index # rest))
          else Inl IndexError)"

text \<open>
  ``Take the inverse of the bijection'': for each \<open>pin_index\<close> of the given range,
  its first position in the flattened table.
\<close>

fun invert_lookup :: "nat list \<Rightarrow> nat list \<Rightarrow> error + nat list" where
  "invert_lookup new_to_pin [] = Inr []"
| "invert_lookup new_to_pin (pin_index # pin_indexes) =
     (case list_index new_to_pin pin_index of
        Inl e \<Rightarrow> Inl e
      | Inr new_index \<Rightarrow>
          (case invert_lookup new_to_pin pin_indexes of
             Inl e \<Rightarrow> Inl e
           | Inr rest \<Rightarrow> Inr (new_index # rest)))"

text \<open>
  One pass of \<open>create_dof_lookup\<close>, for the block sizes \<open>sizes\<close> (the \<open>nq\<close> of
  the joints in the first pass, their \<open>nv\<close> in the second). The result is
  \<open>(res_pin_to_new, res_new_to_pin)\<close>.
\<close>

definition dof_lookup :: "int list \<Rightarrow> string list \<Rightarrow> string list \<Rightarrow> error + (nat list \<times> nat list)" where
  "dof_lookup sizes pin_joint_names new_joint_list =
     (case rearrange_joints pin_joint_names (group_dofs 0 sizes) new_joint_list of
        Inl e \<Rightarrow> Inl e
      | Inr new_to_pin \<Rightarrow>
          (let res_new_to_pin = concat new_to_pin in
           case invert_lookup res_new_to_pin [0 ..< length res_new_to_pin] of
             Inl e \<Rightarrow> Inl e
           | Inr res_pin_to_new \<Rightarrow> Inr (res_pin_to_new, res_new_to_pin)))"

text \<open>
  The kinematic model \<open>self.pin_robot_wrapper.model\<close>, as far as the code reads it:
  the joint names and the joints. Both lists start with the universe joint, the root
  of the model, which is no joint of the robot (``Pinocchio joints starts at 1 to take
  into account the universe joint that is not in ros'').
\<close>

record pin_model =
  names :: "string list"
  joints :: "joint list"

text \<open>\<open>Robot.get_joint_names\<close>: \<open>list(model.names[1:])\<close>.\<close>

definition get_joint_names :: "pin_model \<Rightarrow> string list" where
  "get_joint_names m = drop 1 (names m)"

text \<open>
  \<open>Robot.create_dof_lookup\<close>. The blocks are enumerated over \<open>pin_model.joints\<close>,
  the names are looked up in \<open>self.get_joint_names()\<close>. The result is
  \<open>(res_q_pin_to_new, res_q_new_to_pin, res_v_pin_to_new, res_v_new_to_pin)\<close>.
\<close>

definition create_dof_lookup ::
  "pin_model \<Rightarrow> string list \<Rightarrow> error + (nat list \<times> nat list \<times> nat list \<times> nat list)" where
  "create_dof_lookup m new_joint_list =
     (let pin_joint_names = get_joint_names m in
      case dof_lookup (map nq (joints m)) pin_joint_names new_joint_list of
        Inl e \<Rightarrow> Inl e
      | Inr (res_q_pin_to_new, res_q_new_to_pin) \<Rightarrow>
          (case dof_lookup (map nv (joints m)) pin_joint_names new_joint_list of
             Inl e \<Rightarrow> Inl e
           | Inr (res_v_pin_to_new, res_v_new_to_pin) \<Rightarrow>
               Inr (res_q_pin_to_new, res_q_new_to_pin, res_v_pin_to_new, res_v_new_to_pin)))"

section \<open>robot.py: reordering and bounds\<close>

text \<open>
  The comprehension \<open>[x[table[i]] for i in range(len(x))]\<close> of
  \<open>_rearrange_ros_to_pin\<close>; both subscripts raise \<open>IndexError\<close> out of range
  (the tables hold non-negative indices only).
\<close>

fun pick_by :: "nat list \<Rightarrow> 'a list \<Rightarrow> nat list \<Rightarrow> error + 'a list" where
  "pick_by table x [] = Inr []"
| "pick_by table x (i # is) =
     (if i < length table then
        (if table ! i < length x then
           (case pick_by table x is of
              Inl e \<Rightarrow> Inl e
            | Inr rest \<Rightarrow> Inr (x ! (table ! i) # rest))
         else Inl IndexError)
      else Inl IndexError)"

definition rearrange :: "nat list \<Rightarrow> 'a list \<Rightarrow> error + 'a list" where
  "rearrange table x = pick_by table x [0 ..< length x]"

text \<open>
  The state of a \<open>Robot\<close> that the measurement path reads: the four tables built at
  initialisation and the joint limits of the model.
\<close>

record robot =
  q_pin_to_ros :: "nat list"
  q_ros_to_pin :: "nat list"
  v_pin_to_ros :: "nat list"
  v_ros_to_pin :: "nat list"
  lowerPositionLimit :: "real list"
  upperPositionLimit :: "real list"

record joint_state =
  position :: "real list"
  velocity :: "real list"
  effort :: "real list"

text \<open>\<open>Robot._rearrange_ros_to_pin\<close>, called with \<open>q\<close>, \<open>v\<close> and \<open>tau\<close> all given.\<close>

definition rearrange_ros_to_pin ::
  "robot \<Rightarrow> real list \<Rightarrow> real list \<Rightarrow> real list \<Rightarrow> error + (real list \<times> real list \<times> real list)" where
  "rearrange_ros_to_pin r q v tau =
     (case rearrange (q_pin_to_ros r) q of
        Inl e \<Rightarrow> Inl e
      | Inr q_res \<Rightarrow>
          (case rearrange (v_pin_to_ros r) v of
             Inl e \<Rightarrow> Inl e
           | Inr v_res \<Rightarrow>
               (case rearrange (v_pin_to_ros r) tau of
                  Inl e \<Rightarrow> Inl e
                | Inr tau_res \<Rightarrow> Inr (q_res, v_res, tau_res))))"

text \<open>
  Python floats are IEEE doubles. The scalars of the model are the reals that are
  doubles; \<open>max\<close>, \<open>min\<close>, \<open>abs\<close> and \<open><\<close> are exact on them. The
  subtraction rounds its result: it is the parameter \<open>float_sub\<close> of the functions
  below. The literal \<open>1e-3\<close> denotes the double nearest to one thousandth, which
  is \<open>1152921504606847 / 2 ^ 60\<close>.
\<close>

definition double_1e_3 :: real where
  "double_1e_3 = 1152921504606847 / 1152921504606846976"

text \<open>
  The loop \<open>for i, pos in enumerate(q)\<close> of \<open>get_meas_qvtau\<close>, from index \<open>i\<close>
  on. The limits are arrays of the model; a subscript out of range raises
  \<open>IndexError\<close>. When the assertion fails, its message is evaluated before
  \<open>AssertionError\<close> is raised: the f-string reads
  \<open>self.pin_robot_wrapper.pin_model.names[i+1]\<close>, and the wrapper, the
  \<open>pinocchio.RobotWrapper\<close> built in \<open>__init__\<close>, has the model under the
  attribute \<open>model\<close> (as every other line reads it) and no attribute
  \<open>pin_model\<close>, so the evaluation raises \<open>AttributeError\<close>.
\<close>

fun clamp_from :: "(real \<Rightarrow> real \<Rightarrow> real) \<Rightarrow> robot \<Rightarrow> nat \<Rightarrow> real list \<Rightarrow> error + real list" where
  "clamp_from float_sub r i [] = Inr []"
| "clamp_from float_sub r i (q_i # rest) =
     (if i < length (lowerPositionLimit r) then
        (let pos = max q_i (lowerPositionLimit r ! i) in
         if i < length (upperPositionLimit r) then
           (let pos = min pos (upperPositionLimit r ! i) in
            if \<bar>float_sub pos q_i\<bar> < double_1e_3 then
              (case clamp_from float_sub r (i + 1) rest of
                 Inl e \<Rightarrow> Inl e
               | Inr rest' \<Rightarrow> Inr (pos # rest'))
            else Inl AttributeError)
         else Inl IndexError)
      else Inl IndexError)"

text \<open>\<open>Robot.get_meas_qvtau\<close>, on the last joint-state message \<open>joints_state\<close>.\<close>

definition get_meas_qvtau ::
  "(real \<Rightarrow> real \<Rightarrow> real) \<Rightarrow> robot \<Rightarrow> bool \<Rightarrow> joint_state \<Rightarrow>
   error + (real list \<times> real list \<times> real list)" where
  "get_meas_qvtau float_sub r raw joints_state =
     (case rearrange_ros_to_pin r (position joints_state) (velocity joints_state) (effort joints_state) of
        Inl e \<Rightarrow> Inl e
      | Inr (q, v, tau) \<Rightarrow>
          if \<not> raw then
            (case clamp_from float_sub r 0 q of
               Inl e \<Rightarrow> Inl e
             | Inr q' \<Rightarrow> Inr (q', v, tau))
          else Inr (q, v, tau))"

section \<open>planner.py: the external planner\<close>

text \<open>
  A configuration is a list of floats; the planner appends the seven scalars of the
  target pose to the robot configuration.
\<close>

type_synonym configuration = "real list"

text \<open>
  The calls into the planning service (\<open>self.ps\<close>, \<open>self.hpp_robot\<close> and the
  constraint graph) that the modelled code makes. The service is not part of the
  sources: it is a parameter, a set of operations on a state \<open>'s\<close> of its own. Each
  operation returns; of the returned tuples only the components the code reads are
  kept (the success flag and the path id or the configuration).
\<close>

record 's planner_service =
  shootRandomConfig :: "'s \<Rightarrow> configuration \<times> 's"
  generateTargetConfig :: "string \<Rightarrow> configuration \<Rightarrow> configuration \<Rightarrow> 's \<Rightarrow> (bool \<times> configuration) \<times> 's"
  directPath :: "configuration \<Rightarrow> configuration \<Rightarrow> bool \<Rightarrow> 's \<Rightarrow> (bool \<times> nat) \<times> 's"
  appendDirectPath :: "nat \<Rightarrow> configuration \<Rightarrow> bool \<Rightarrow> 's \<Rightarrow> 's"
  erasePath :: "nat \<Rightarrow> 's \<Rightarrow> 's"

section \<open>planner.py: goal candidates of make\_gripper\_approach\<close>

text \<open>One iteration of the loop ``Generate pair goal configuration (pre-graps, grasp)''.\<close>

definition sample_once ::
  "'s planner_service \<Rightarrow> string \<Rightarrow> configuration \<Rightarrow>
   (configuration \<times> configuration) list \<times> 's \<Rightarrow> (configuration \<times> configuration) list \<times> 's" where
  "sample_once ps gripperFullname q_init st =
     (case st of (q_goals, s) \<Rightarrow>
      case shootRandomConfig ps s of (q, s1) \<Rightarrow>
      case generateTargetConfig ps (gripperFullname @ '' > target/handle | f_01'') q_init q s1 of
        ((res_pre, q_pre), s2) \<Rightarrow>
      case generateTargetConfig ps (gripperFullname @ '' > target/handle | f_12'') q_pre q_pre s2 of
        ((res_grasp, q_grasp), s3) \<Rightarrow>
      if res_pre \<and> res_grasp then
        (case directPath ps q_pre q_grasp True s3 of ((res_path, pathId), s4) \<Rightarrow>
         if res_path then (q_goals @ [(q_pre, q_grasp)], erasePath ps pathId s4)
         else (q_goals, s4))
      else (q_goals, s3))"

text \<open>The loop \<open>for _ in range(n)\<close> around it, starting from \<open>q_goals = []\<close>.\<close>

definition sample_loop ::
  "'s planner_service \<Rightarrow> string \<Rightarrow> configuration \<Rightarrow> nat \<Rightarrow> 's \<Rightarrow>
   (configuration \<times> configuration) list \<times> 's" where
  "sample_loop ps gripperFullname q_init n s =
     fold (\<lambda>_. sample_once ps gripperFullname q_init) [0 ..< n] ([], s)"

text \<open>
  Lines 159 to 171 of \<open>make_gripper_approach\<close>: a hundred draws, then
  \<open>assert len(q_goals) > 0, "No goal configuration found"\<close>.
\<close>

definition goal_candidates ::
  "'s planner_service \<Rightarrow> string \<Rightarrow> configuration \<Rightarrow> 's \<Rightarrow>
   error + ((configuration \<times> configuration) list \<times> 's)" where
  "goal_candidates ps gripperFullname q_init s =
     (case sample_loop ps gripperFullname q_init 100 s of (q_goals, s') \<Rightarrow>
      if length q_goals > 0 then Inr (q_goals, s')
      else Inl (AssertionError NoGoalConfiguration))"

section \<open>planner.py: splitting the path of make\_pick\_and\_place\<close>

text \<open>\<open>q[-7:]\<close>: the last seven scalars, the whole list when it is shorter.\<close>

definition target_pos :: "configuration \<Rightarrow> configuration" where
  "target_pos q = drop (length q - 7) q"

text \<open>
  The loop \<open>for i, q in enumerate(wps)\<close>, from index \<open>i\<close> on, carrying
  \<open>(pick_index, place_index)\<close>. \<open>compare_configurations\<close> is imported from a
  module that is not among the sources: it is the parameter \<open>cmp\<close>, which may raise.
\<close>

fun scan_waypoints ::
  "(configuration \<Rightarrow> configuration \<Rightarrow> error + bool) \<Rightarrow> configuration \<Rightarrow> configuration \<Rightarrow>
   nat \<Rightarrow> configuration list \<Rightarrow> nat option \<times> nat option \<Rightarrow> error + (nat option \<times> nat option)" where
  "scan_waypoints cmp pose_pick pose_place i [] idx = Inr idx"
| "scan_waypoints cmp pose_pick pose_place i (q # qs) idx =
     (case cmp (target_pos q) pose_pick of
        Inl e \<Rightarrow> Inl e
      | Inr at_pick \<Rightarrow>
          (case cmp (target_pos q) pose_place of
             Inl e \<Rightarrow> Inl e
           | Inr at_place \<Rightarrow>
               scan_waypoints cmp pose_pick pose_place (i + 1) qs
                 (if at_pick then Some i else fst idx,
                  if \<not> at_place then Some (i + 1) else snd idx)))"

text \<open>
  The three slices of lines 321 to 323, \<open>wps[:pick_index+1]\<close>,
  \<open>wps[pick_index:place_index+1]\<close> and \<open>wps[place_index:]\<close>. An index still
  \<open>None\<close> makes \<open>None + 1\<close> raise \<open>TypeError\<close>.
\<close>

definition waypoint_ranges ::
  "(configuration \<Rightarrow> configuration \<Rightarrow> error + bool) \<Rightarrow> configuration \<Rightarrow> configuration \<Rightarrow>
   configuration list \<Rightarrow> error + (configuration list \<times> configuration list \<times> configuration list)" where
  "waypoint_ranges cmp pose_pick pose_place wps =
     (case scan_waypoints cmp pose_pick pose_place 0 wps (None, None) of
        Inl e \<Rightarrow> Inl e
      | Inr (pick_index, place_index) \<Rightarrow>
          (case pick_index of
             None \<Rightarrow> Inl TypeError
           | Some p \<Rightarrow>
               (case place_index of
                  None \<Rightarrow> Inl TypeError
                | Some b \<Rightarrow> Inr (take (p + 1) wps, drop p (take (b + 1) wps), drop b wps))))"

text \<open>
  \<open>Planner._create_path\<close>: \<open>waypoints[0]\<close> and \<open>waypoints[1]\<close> are evaluated
  before the planner is called, and raise \<open>IndexError\<close> on a list that is too short.
\<close>

definition create_path :: "'s planner_service \<Rightarrow> configuration list \<Rightarrow> 's \<Rightarrow> error + (nat \<times> 's)" where
  "create_path ps waypoints s =
     (case waypoints of
        [] \<Rightarrow> Inl IndexError
      | [w0] \<Rightarrow> Inl IndexError
      | w0 # w1 # rest \<Rightarrow>
          (case directPath ps w0 w1 False s of ((_, pathId), s1) \<Rightarrow>
           Inr (pathId, fold (\<lambda>q. appendDirectPath ps pathId q False) rest s1)))"

text \<open>
  Lines 309 to 323 of \<open>make_pick_and_place\<close>, on the waypoints \<open>wps\<close> of the solved
  path: the scan, then the three sub-paths, created in the order pick, place, home.
\<close>

definition split_path ::
  "'s planner_service \<Rightarrow> (configuration \<Rightarrow> configuration \<Rightarrow> error + bool) \<Rightarrow>
   configuration \<Rightarrow> configuration \<Rightarrow> configuration list \<Rightarrow> 's \<Rightarrow> error + ((nat \<times> nat \<times> nat) \<times> 's)" where
  "split_path ps cmp pose_pick pose_place wps s =
     (case scan_waypoints cmp pose_pick pose_place 0 wps (None, None) of
        Inl e \<Rightarrow> Inl e
      | Inr (pick_index, place_index) \<Rightarrow>
          (case pick_index of
             None \<Rightarrow> Inl TypeError
           | Some p \<Rightarrow>
               (case create_path ps (take (p + 1) wps) s of
                  Inl e \<Rightarrow> Inl e
                | Inr (pick_pathId, s1) \<Rightarrow>
                    (case place_index of
                       None \<Rightarrow> Inl TypeError
                     | Some b \<Rightarrow>
                         (case create_path ps (drop p (take (b + 1) wps)) s1 of
                            Inl e \<Rightarrow> Inl e
                          | Inr (place_pathId, s2) \<Rightarrow>
                              (case create_path ps (drop b wps) s2 of
                                 Inl e \<Rightarrow> Inl e
                               | Inr (home_pathId, s3) \<Rightarrow>
                                   Inr ((pick_pathId, place_pathId, home_pathId), s3)))))))"

section \<open>Collaborators used in the examples\<close>

text \<open>
  Modelled from the spec: \<open>compare_configurations\<close> of \<open>prl_hpp.tools.utils\<close> is
  missing from the sources. The spec describes it as the element-wise comparison of
  absolute differences against a tolerance, true iff every pair of corresponding
  scalars differs by no more than the tolerance, failing when the two vectors have
  different lengths.
\<close>

definition compare_configurations :: "real \<Rightarrow> configuration \<Rightarrow> configuration \<Rightarrow> error + bool" where
  "compare_configurations tolerance a b =
     (if length a \<noteq> length b then Inl (AssertionError ConfigurationSizeMismatch)
      else Inr (list_all2 (\<lambda>x y. \<bar>x - y\<bar> \<le> tolerance) a b))"

text \<open>
  A planner that accepts or rejects by fixed flags. Its state counts the calls to
  \<open>shootRandomConfig\<close> and holds the stored paths; a path id is a position in that list.
\<close>

record store =
  draws :: nat
  paths :: "configuration list list"

definition fixed_planner :: "bool \<Rightarrow> bool \<Rightarrow> bool \<Rightarrow> store planner_service" where
  "fixed_planner ok_pre ok_grasp ok_path =
     \<lparr> shootRandomConfig = (\<lambda>s. ([], s\<lparr>draws := draws s + 1\<rparr>)),
       generateTargetConfig = (\<lambda>edge q_ref q s.
         ((if edge = ''robot/g > target/handle | f_01'' then ok_pre else ok_grasp, q), s)),
       directPath = (\<lambda>q1 q2 validate s.
         ((ok_path, length (paths s)), s\<lparr>paths := paths s @ [[q1, q2]]\<rparr>)),
       appendDirectPath = (\<lambda>pathId q validate s.
         s\<lparr>paths := (paths s)[pathId := paths s ! pathId @ [q]]\<rparr>),
       erasePath = (\<lambda>pathId s. s\<lparr>paths := take pathId (paths s) @ drop (pathId + 1) (paths s)\<rparr>) \<rparr>"

text \<open>A robot with one joint of one scalar, limits \<open>[0, 1]\<close> and identity tables.\<close>

definition unit_robot :: robot where
  "unit_robot =
     \<lparr> q_pin_to_ros = [0], q_ros_to_pin = [0], v_pin_to_ros = [0], v_ros_to_pin = [0],
       lowerPositionLimit = [0], upperPositionLimit = [1] \<rparr>"

text \<open>
  Two models with two joints after the universe joint: \<open>wrist\<close> with one
  configuration and one velocity scalar and \<open>ball\<close> with four and three; \<open>A\<close>
  with one scalar and \<open>B\<close> with two. The universe joint, and with it the
  scalar counts that the model gives it, is the parameter.
\<close>

definition wrist_ball_model :: "joint \<Rightarrow> pin_model" where
  "wrist_ball_model universe =
     \<lparr> names = [''universe'', ''wrist'', ''ball''],
       joints = [universe, \<lparr>nq = 1, nv = 1\<rparr>, \<lparr>nq = 4, nv = 3\<rparr>] \<rparr>"

definition a_b_model :: "joint \<Rightarrow> pin_model" where
  "a_b_model universe =
     \<lparr> names = [''universe'', ''A'', ''B''],
       joints = [universe, \<lparr>nq = 1, nv = 1\<rparr>, \<lparr>nq = 2, nv = 2\<rparr>] \<rparr>"

section \<open>Vocabulary of the statements\<close>

text \<open>
  The position that \<open>xs.index(x)\<close> returns, as a plain number (\<open>0\<close> where the
  call raises); it names the entries of the tables in the proofs.
\<close>

definition pos_of :: "'a list \<Rightarrow> 'a \<Rightarrow> nat" where
  "pos_of xs x = (case list_index xs x of Inl e \<Rightarrow> 0 | Inr k \<Rightarrow> k)"

text \<open>
  Two tables are inverse bijections of \<open>[0, n)\<close>: both have \<open>n\<close> entries below
  \<open>n\<close>, and each undoes the other at every index.
\<close>

definition inverse_tables :: "nat \<Rightarrow> nat list \<Rightarrow> nat list \<Rightarrow> bool" where
  "inverse_tables n fwd bwd =
     (length fwd = n \<and> length bwd = n \<and>
      list_all (\<lambda>i. fwd ! i < n \<and> bwd ! i < n \<and>
                    bwd ! (fwd ! i) = i \<and> fwd ! (bwd ! i) = i) [0 ..< n])"

text \<open>
  A waypoint matches a pose when the comparison of its target-pose slice with the
  pose returns true; it is comparable when neither comparison of the loop raises.
\<close>

definition at_pose ::
  "(configuration \<Rightarrow> configuration \<Rightarrow> error + bool) \<Rightarrow> configuration \<Rightarrow> configuration \<Rightarrow> bool" where
  "at_pose cmp pose q = (cmp (target_pos q) pose = Inr True)"

definition comparable ::
  "(configuration \<Rightarrow> configuration \<Rightarrow> error + bool) \<Rightarrow> configuration \<Rightarrow> configuration \<Rightarrow>
   configuration \<Rightarrow> bool" where
  "comparable cmp pose_pick pose_place q =
     (\<not> isl (cmp (target_pos q) pose_pick) \<and> \<not> isl (cmp (target_pos q) pose_place))"

text \<open>
  \<open>pick_index\<close> is the last index of a waypoint that matches the pick pose
  (\<open>None\<close> when there is none); \<open>place_index\<close> is one past the last index of a
  waypoint that does not match the place pose (\<open>None\<close> when all match).
\<close>

definition pick_boundary :: "(configuration \<Rightarrow> bool) \<Rightarrow> configuration list \<Rightarrow> nat option \<Rightarrow> bool" where
  "pick_boundary at_pick wps pick_index =
     (case pick_index of
        None \<Rightarrow> list_all (\<lambda>q. \<not> at_pick q) wps
      | Some p \<Rightarrow>
          p < length wps \<and> at_pick (wps ! p) \<and> list_all (\<lambda>q. \<not> at_pick q) (drop (p + 1) wps))"

definition place_boundary :: "(configuration \<Rightarrow> bool) \<Rightarrow> configuration list \<Rightarrow> nat option \<Rightarrow> bool" where
  "place_boundary at_place wps place_index =
     (case place_index of
        None \<Rightarrow> list_all at_place wps
      | Some b \<Rightarrow>
          0 < b \<and> b \<le> length wps \<and> \<not> at_place (wps ! (b - 1)) \<and> list_all at_place (drop b wps))"

text \<open>
  \<open>cnt\<close> counts the random draws of a planner: \<open>shootRandomConfig\<close> adds one to
  it and the other calls of the sampling loop leave it alone.
\<close>

definition counts_draws :: "'s planner_service \<Rightarrow> ('s \<Rightarrow> nat) \<Rightarrow> bool" where
  "counts_draws ps cnt =
     ((\<forall>s. cnt (snd (shootRandomConfig ps s)) = cnt s + 1) \<and>
      (\<forall>edge q_ref q s. cnt (snd (generateTargetConfig ps edge q_ref q s)) = cnt s) \<and>
      (\<forall>q1 q2 validate s. cnt (snd (directPath ps q1 q2 validate s)) = cnt s) \<and>
      (\<forall>pathId s. cnt (erasePath ps pathId s) = cnt s))"

text \<open>
  The value that the loop of \<open>get_meas_qvtau\<close> computes for the scalar \<open>x\<close> at
  index \<open>i\<close>: \<open>min(max(x, lower[i]), upper[i])\<close>.
\<close>

definition clamped :: "robot \<Rightarrow> nat \<Rightarrow> real \<Rightarrow> real" where
  "clamped r i x = min (max x (lowerPositionLimit r ! i)) (upperPositionLimit r ! i)"

text \<open>
  A table can reorder the vector \<open>x\<close>: it has an entry for every index of \<open>x\<close>,
  and each of these entries is an index of \<open>x\<close>.
\<close>

definition valid_table :: "nat list \<Rightarrow> 'a list \<Rightarrow> bool" where
  "valid_table table x = (length x \<le> length table \<and> list_all (\<lambda>i. table ! i < length x) [0 ..< length x])"

section \<open>The lookup tables\<close>

lemma list_index_absent: "x \<notin> set xs \<Longrightarrow> list_index xs x = Inl ValueError"
  by (induction xs) auto

lemma list_index_present:
  "x \<in> set xs \<Longrightarrow> \<exists>k. list_index xs x = Inr k \<and> k < length xs \<and> xs ! k = x"
  by (induction xs) auto

lemma list_index_pos_of: "x \<in> set xs \<Longrightarrow> list_index xs x = Inr (pos_of xs x)"
  using list_index_present [of x xs] by (auto simp: pos_of_def)

lemma pos_of_less: "x \<in> set xs \<Longrightarrow> pos_of xs x < length xs"
  using list_index_present [of x xs] by (auto simp: pos_of_def)

lemma nth_pos_of: "x \<in> set xs \<Longrightarrow> xs ! pos_of xs x = x"
  using list_index_present [of x xs] by (auto simp: pos_of_def)

lemma list_index_nth_distinct:
  "distinct xs \<Longrightarrow> i < length xs \<Longrightarrow> list_index xs (xs ! i) = Inr i"
proof (induction xs arbitrary: i)
  case Nil
  then show ?case by simp
next
  case (Cons y ys)
  show ?case
  proof (cases i)
    case 0
    then show ?thesis by simp
  next
    case (Suc j)
    with Cons.prems have "j < length ys" "ys ! j \<in> set ys" "y \<notin> set ys" "distinct ys"
      by auto
    with Cons.IH [of j] Suc show ?thesis by auto
  qed
qed

lemma pos_of_nth_distinct: "distinct xs \<Longrightarrow> i < length xs \<Longrightarrow> pos_of xs (xs ! i) = i"
  by (simp add: pos_of_def list_index_nth_distinct)

lemma map_pos_of_distinct: "distinct xs \<Longrightarrow> map (pos_of xs) xs = [0 ..< length xs]"
  by (rule nth_equalityI) (simp_all add: pos_of_nth_distinct)

lemma concat_group_dofs: "concat (group_dofs i ns) = [i ..< i + sum_list (map nat ns)]"
proof (induction ns arbitrary: i)
  case Nil
  then show ?case by simp
next
  case (Cons n ns)
  have "[i ..< i + nat n] @ [i + nat n ..< i + nat n + sum_list (map nat ns)]
        = [i ..< i + nat n + sum_list (map nat ns)]"
    by (metis le_add1 upt_add_eq_append)
  with Cons show ?case by (simp add: add.assoc)
qed

lemma length_group_dofs: "length (group_dofs i ns) = length ns"
  by (induction ns arbitrary: i) auto

lemma take_group_dofs: "take n (group_dofs i ns) = group_dofs i (take n ns)"
proof (induction ns arbitrary: i n)
  case Nil
  then show ?case by simp
next
  case (Cons m ms)
  then show ?case by (cases n) auto
qed

lemma rearrange_joints_ok:
  "set new \<subseteq> set nms \<Longrightarrow> length nms \<le> length blocks \<Longrightarrow>
   rearrange_joints nms blocks new = Inr (map (\<lambda>name. blocks ! pos_of nms name) new)"
proof (induction new)
  case Nil
  then show ?case by simp
next
  case (Cons a new)
  then have "a \<in> set nms" by simp
  then have "list_index nms a = Inr (pos_of nms a)" "pos_of nms a < length blocks"
    using Cons.prems(2) pos_of_less [of a nms] by (simp_all add: list_index_pos_of)
  with Cons show ?case by simp
qed

lemma mset_concat_map_cong:
  assumes "mset xs = mset ys"
  shows "mset (concat (map f xs)) = mset (concat (map f ys))"
proof -
  have "mset (concat (map f zs)) = sum_mset (image_mset (\<lambda>z. mset (f z)) (mset zs))" for zs
    by (induction zs) simp_all
  with assms show ?thesis by (simp only:)
qed

lemma mset_new_to_pin:
  assumes "distinct nms" "mset new = mset nms" "length nms \<le> length sizes"
  shows "mset (concat (map (\<lambda>name. group_dofs 0 sizes ! pos_of nms name) new))
         = mset [0 ..< sum_list (map nat (take (length nms) sizes))]"
proof -
  let ?blocks = "group_dofs 0 sizes"
  have "map (\<lambda>name. ?blocks ! pos_of nms name) nms = map ((!) ?blocks) (map (pos_of nms) nms)"
    by simp
  also have "\<dots> = map ((!) ?blocks) [0 ..< length nms]"
    using assms(1) by (simp only: map_pos_of_distinct)
  also have "\<dots> = take (length nms) ?blocks"
    using assms(3) by (intro nth_equalityI) (simp_all add: length_group_dofs)
  also have "\<dots> = group_dofs 0 (take (length nms) sizes)"
    by (rule take_group_dofs)
  finally have "concat (map (\<lambda>name. ?blocks ! pos_of nms name) nms)
                = [0 ..< sum_list (map nat (take (length nms) sizes))]"
    by (simp add: concat_group_dofs)
  with mset_concat_map_cong [OF assms(2), of "\<lambda>name. ?blocks ! pos_of nms name"]
  show ?thesis by simp
qed

lemma invert_lookup_ok:
  "set is \<subseteq> set f \<Longrightarrow> invert_lookup f is = Inr (map (pos_of f) is)"
proof (induction "is")
  case Nil
  then show ?case by simp
next
  case (Cons i "is")
  then show ?case by (simp add: list_index_pos_of)
qed

text \<open>
  One pass builds inverse bijections when the block sizes are aligned with the names:
  distinct names, the new list a permutation of them, the \<open>k\<close>-th size that of the
  \<open>k\<close>-th name.
\<close>

lemma dof_lookup_bijection:
  assumes "distinct nms" "mset new = mset nms" "length nms \<le> length sizes"
  shows "\<exists>pin_to_new new_to_pin.
           dof_lookup sizes nms new = Inr (pin_to_new, new_to_pin) \<and>
           inverse_tables (sum_list (map nat (take (length nms) sizes))) new_to_pin pin_to_new"
proof -
  define N where "N = sum_list (map nat (take (length nms) sizes))"
  define f where "f = concat (map (\<lambda>name. group_dofs 0 sizes ! pos_of nms name) new)"
  define g where "g = map (pos_of f) [0 ..< length f]"
  have sub: "set new \<subseteq> set nms"
    using assms(2) by (metis mset_eq_setD order_refl)
  have ms: "mset f = mset [0 ..< N]"
    unfolding f_def N_def by (rule mset_new_to_pin [OF assms])
  have len: "length f = N"
    using mset_eq_length [OF ms] by simp
  have st: "set f = {0 ..< N}"
    using mset_eq_setD [OF ms] by simp
  have dist: "distinct f"
    using mset_eq_imp_distinct_iff [OF ms] by simp
  have r: "rearrange_joints nms (group_dofs 0 sizes) new
           = Inr (map (\<lambda>name. group_dofs 0 sizes ! pos_of nms name) new)"
    using sub assms(3) by (simp add: rearrange_joints_ok length_group_dofs)
  have inv: "invert_lookup f [0 ..< length f] = Inr g"
    unfolding g_def by (rule invert_lookup_ok) (simp add: st len)
  have res: "dof_lookup sizes nms new = Inr (g, f)"
    using inv by (simp add: dof_lookup_def r Let_def f_def)
  have pt: "f ! i < N \<and> g ! i < N \<and> g ! (f ! i) = i \<and> f ! (g ! i) = i" if "i < N" for i
  proof -
    have i_in: "i \<in> set f" using that st by simp
    have fi: "f ! i \<in> set f" using that len by (metis nth_mem)
    then have fi_lt: "f ! i < N" using st by simp
    have gi: "g ! i = pos_of f i" using that len by (simp add: g_def)
    have gi_lt: "g ! i < N" using gi pos_of_less [OF i_in] len by simp
    have "g ! (f ! i) = pos_of f (f ! i)" using fi_lt len by (simp add: g_def)
    also have "\<dots> = i" using dist that len by (simp add: pos_of_nth_distinct)
    finally have gf: "g ! (f ! i) = i" .
    have fg: "f ! (g ! i) = i" using gi nth_pos_of [OF i_in] by simp
    from fi_lt gi_lt gf fg show ?thesis by simp
  qed
  have "length g = N" using len by (simp add: g_def)
  then have "inverse_tables N f g"
    unfolding inverse_tables_def list_all_iff using len pt by simp
  with res show ?thesis unfolding N_def by blast
qed

lemma dof_lookup_shifted:
  assumes "x \<noteq> y"
  shows "\<exists>pin_to_new. dof_lookup [u, 1, b] [x, y] [y, x] = Inr (pin_to_new, nat u # [0 ..< nat u])"
proof -
  let ?f = "nat u # [0 ..< nat u]"
  have r: "rearrange_joints [x, y] (group_dofs 0 [u, 1, b]) [y, x]
           = Inr [[nat u], [0 ..< nat u]]"
    using assms by simp
  have "invert_lookup ?f [0 ..< length ?f] = Inr (map (pos_of ?f) [0 ..< length ?f])"
    by (rule invert_lookup_ok) auto
  with r show ?thesis by (simp add: dof_lookup_def Let_def)
qed

text \<open>
  C1. The code does not build bijections of the scalars of the model. The blocks are
  enumerated over all the joints of the model, the universe joint first, while a name
  is looked up in the names without the universe joint: every joint gets the block of
  the joint before it. For the model \<open>[universe, wrist(1, 1), ball(4, 3)]\<close> and the
  new joint list \<open>[ball, wrist]\<close> the tables that are returned hold the blocks of
  \<open>wrist\<close> and of the universe joint, whatever scalars the universe joint has: they
  have one entry more than the universe joint has scalars, and are not bijections of
  the scalars that the code enumerates. With a universe joint of no scalars, or of
  one, they are not bijections of the five configuration scalars and the four
  velocity scalars of \<open>wrist\<close> and \<open>ball\<close> either.
\<close>

theorem create_dof_lookup_shifts_blocks:
  "(\<exists>q_pin_to_new v_pin_to_new.
      create_dof_lookup (wrist_ball_model u) [''ball'', ''wrist'']
        = Inr (q_pin_to_new, nat (nq u) # [0 ..< nat (nq u)],
               v_pin_to_new, nat (nv u) # [0 ..< nat (nv u)]) \<and>
      \<not> inverse_tables (sum_list (map (nat \<circ> nq) (joints (wrist_ball_model u))))
          (nat (nq u) # [0 ..< nat (nq u)]) q_pin_to_new \<and>
      \<not> inverse_tables (sum_list (map (nat \<circ> nv) (joints (wrist_ball_model u))))
          (nat (nv u) # [0 ..< nat (nv u)]) v_pin_to_new) \<and>
   create_dof_lookup (wrist_ball_model \<lparr>nq = 0, nv = 0\<rparr>) [''ball'', ''wrist'']
     = Inr ([0], [0], [0], [0]) \<and>
   create_dof_lookup (wrist_ball_model \<lparr>nq = 1, nv = 1\<rparr>) [''ball'', ''wrist'']
     = Inr ([1, 0], [1, 0], [1, 0], [1, 0]) \<and>
   \<not> inverse_tables 5 [0] [0] \<and> \<not> inverse_tables 4 [0] [0] \<and>
   \<not> inverse_tables 5 [1, 0] [1, 0] \<and> \<not> inverse_tables 4 [1, 0] [1, 0]"
proof -
  obtain qa where q: "dof_lookup [nq u, 1, 4] [''wrist'', ''ball''] [''ball'', ''wrist'']
      = Inr (qa, nat (nq u) # [0 ..< nat (nq u)])"
    using dof_lookup_shifted [of "''wrist''" "''ball''" "nq u" 4] by auto
  obtain va where v: "dof_lookup [nv u, 1, 3] [''wrist'', ''ball''] [''ball'', ''wrist'']
      = Inr (va, nat (nv u) # [0 ..< nat (nv u)])"
    using dof_lookup_shifted [of "''wrist''" "''ball''" "nv u" 3] by auto
  have res: "create_dof_lookup (wrist_ball_model u) [''ball'', ''wrist'']
        = Inr (qa, nat (nq u) # [0 ..< nat (nq u)], va, nat (nv u) # [0 ..< nat (nv u)])"
    using q v by (simp add: create_dof_lookup_def wrist_ball_model_def get_joint_names_def)
  have nq: "\<not> inverse_tables (sum_list (map (nat \<circ> nq) (joints (wrist_ball_model u))))
          (nat (nq u) # [0 ..< nat (nq u)]) qa"
    by (simp add: inverse_tables_def wrist_ball_model_def)
  have nv: "\<not> inverse_tables (sum_list (map (nat \<circ> nv) (joints (wrist_ball_model u))))
          (nat (nv u) # [0 ..< nat (nv u)]) va"
    by (simp add: inverse_tables_def wrist_ball_model_def)
  have ex: "create_dof_lookup (wrist_ball_model \<lparr>nq = 0, nv = 0\<rparr>) [''ball'', ''wrist'']
     = Inr ([0], [0], [0], [0])"
    "create_dof_lookup (wrist_ball_model \<lparr>nq = 1, nv = 1\<rparr>) [''ball'', ''wrist'']
     = Inr ([1, 0], [1, 0], [1, 0], [1, 0])"
    "\<not> inverse_tables 5 [0] [0]" "\<not> inverse_tables 4 [0] [0]"
    "\<not> inverse_tables 5 [1, 0] [1, 0]" "\<not> inverse_tables 4 [1, 0] [1, 0]"
    by (simp_all add: create_dof_lookup_def dof_lookup_def wrist_ball_model_def get_joint_names_def
        inverse_tables_def upt_rec Let_def)
  from res nq nv ex show ?thesis by blast
qed

lemma rearrange_shifted:
  "rearrange (n # [0 ..< n]) [10, 20, 30 :: real] \<noteq> Inr [20, 30, 10]"
proof -
  consider "n = 0" | "n = 1" | "n = 2" | "3 \<le> n" by linarith
  then show ?thesis
  proof cases
    case 1
    then show ?thesis by (simp add: rearrange_def upt_rec)
  next
    case 2
    then show ?thesis by (simp add: rearrange_def upt_rec)
  next
    case 3
    then show ?thesis by (simp add: rearrange_def upt_rec)
  next
    case 4
    then have "rearrange (n # [0 ..< n]) [10, 20, 30 :: real] = Inl IndexError"
      by (simp add: rearrange_def upt_rec [of 0 3])
    then show ?thesis by simp
  qed
qed

text \<open>
  C2. The code does not build the table \<open>[1, 2, 0]\<close>. For the model
  \<open>[universe, A(1), B(2)]\<close> and the new joint list \<open>[B, A]\<close>, the configuration
  table from new to model indices (the second of the four tables) holds the block of
  \<open>A\<close> and then the block of the universe joint; whatever scalars the universe
  joint has, it is not \<open>[1, 2, 0]\<close>, and picking the vector \<open>[10, 20, 30]\<close>
  through it, \<open>out[p] = in[table[p]]\<close>, does not give \<open>[20, 30, 10]\<close>. With a
  universe joint of no scalars the table is \<open>[0]\<close>, with one of one scalar it is
  \<open>[1, 0]\<close>, and the reordering raises \<open>IndexError\<close>.
\<close>

theorem scenario_reorder_shifted:
  "(\<exists>q_pin_to_new v_pin_to_new.
      create_dof_lookup (a_b_model u) [''B'', ''A'']
        = Inr (q_pin_to_new, nat (nq u) # [0 ..< nat (nq u)],
               v_pin_to_new, nat (nv u) # [0 ..< nat (nv u)])) \<and>
   nat (nq u) # [0 ..< nat (nq u)] \<noteq> [1, 2, 0] \<and>
   rearrange (nat (nq u) # [0 ..< nat (nq u)]) [10, 20, 30 :: real] \<noteq> Inr [20, 30, 10] \<and>
   create_dof_lookup (a_b_model \<lparr>nq = 0, nv = 0\<rparr>) [''B'', ''A''] = Inr ([0], [0], [0], [0]) \<and>
   create_dof_lookup (a_b_model \<lparr>nq = 1, nv = 1\<rparr>) [''B'', ''A'']
     = Inr ([1, 0], [1, 0], [1, 0], [1, 0]) \<and>
   rearrange [0] [10, 20, 30 :: real] = Inl IndexError \<and>
   rearrange [1, 0] [10, 20, 30 :: real] = Inl IndexError"
proof -
  obtain qa where q: "dof_lookup [nq u, 1, 2] [''A'', ''B''] [''B'', ''A'']
      = Inr (qa, nat (nq u) # [0 ..< nat (nq u)])"
    using dof_lookup_shifted [of "''A''" "''B''" "nq u" 2] by auto
  obtain va where v: "dof_lookup [nv u, 1, 2] [''A'', ''B''] [''B'', ''A'']
      = Inr (va, nat (nv u) # [0 ..< nat (nv u)])"
    using dof_lookup_shifted [of "''A''" "''B''" "nv u" 2] by auto
  have res: "\<exists>q_pin_to_new v_pin_to_new. create_dof_lookup (a_b_model u) [''B'', ''A'']
        = Inr (q_pin_to_new, nat (nq u) # [0 ..< nat (nq u)],
               v_pin_to_new, nat (nv u) # [0 ..< nat (nv u)])"
    using q v by (simp add: create_dof_lookup_def a_b_model_def get_joint_names_def)
  have ne: "nat (nq u) # [0 ..< nat (nq u)] \<noteq> [1, 2, 0]"
    by auto
  have ex: "create_dof_lookup (a_b_model \<lparr>nq = 0, nv = 0\<rparr>) [''B'', ''A''] = Inr ([0], [0], [0], [0])"
    "create_dof_lookup (a_b_model \<lparr>nq = 1, nv = 1\<rparr>) [''B'', ''A'']
     = Inr ([1, 0], [1, 0], [1, 0], [1, 0])"
    "rearrange [0] [10, 20, 30 :: real] = Inl IndexError"
    "rearrange [1, 0] [10, 20, 30 :: real] = Inl IndexError"
    by (simp_all add: create_dof_lookup_def dof_lookup_def a_b_model_def get_joint_names_def
        rearrange_def upt_rec Let_def)
  from res ne rearrange_shifted [of "nat (nq u)"] ex show ?thesis by blast
qed

section \<open>The boundaries found by the scan\<close>

lemma scan_waypoints_append:
  "scan_waypoints cmp pk pl i (xs @ ys) idx =
     (case scan_waypoints cmp pk pl i xs idx of
        Inl e \<Rightarrow> Inl e
      | Inr idx' \<Rightarrow> scan_waypoints cmp pk pl (i + length xs) ys idx')"
proof (induction xs arbitrary: i idx)
  case Nil
  then show ?case by simp
next
  case (Cons x xs)
  show ?case
  proof (cases "cmp (target_pos x) pk")
    case (Inl e)
    then show ?thesis by simp
  next
    case a: (Inr at_pick)
    show ?thesis
    proof (cases "cmp (target_pos x) pl")
      case (Inl e)
      with a show ?thesis by simp
    next
      case (Inr at_place)
      with a Cons.IH [of "Suc i"] show ?thesis by (simp cong: sum.case_cong)
    qed
  qed
qed

lemma scan_waypoints_last:
  assumes "comparable cmp pk pl q"
  shows "scan_waypoints cmp pk pl i [q] idx =
           Inr (if at_pose cmp pk q then Some i else fst idx,
                if \<not> at_pose cmp pl q then Some (i + 1) else snd idx)"
proof -
  from assms obtain a b where "cmp (target_pos q) pk = Inr a" "cmp (target_pos q) pl = Inr b"
    unfolding comparable_def by (metis sum.collapse(2))
  then show ?thesis by (simp add: at_pose_def)
qed

lemma pick_boundary_snoc:
  assumes "pick_boundary P wps pidx"
  shows "pick_boundary P (wps @ [q]) (if P q then Some (length wps) else pidx)"
proof (cases "P q")
  case True
  then show ?thesis by (simp add: pick_boundary_def)
next
  case False
  show ?thesis
  proof (cases pidx)
    case None
    with assms False show ?thesis by (simp add: pick_boundary_def)
  next
    case (Some p)
    with assms False show ?thesis by (simp add: pick_boundary_def nth_append)
  qed
qed

lemma place_boundary_snoc:
  assumes "place_boundary P wps pl"
  shows "place_boundary P (wps @ [q]) (if \<not> P q then Some (length wps + 1) else pl)"
proof (cases "P q")
  case False
  then show ?thesis by (simp add: place_boundary_def)
next
  case True
  show ?thesis
  proof (cases pl)
    case None
    with assms True show ?thesis by (simp add: place_boundary_def)
  next
    case (Some b)
    with assms have "0 < b" "b \<le> length wps" by (simp_all add: place_boundary_def)
    then have "b - 1 < length wps" by arith
    with Some assms True show ?thesis by (simp add: place_boundary_def nth_append)
  qed
qed

lemma scan_waypoints_boundaries:
  assumes "list_all (comparable cmp pk pl) wps"
  shows "\<exists>pick_index place_index.
           scan_waypoints cmp pk pl 0 wps (None, None) = Inr (pick_index, place_index) \<and>
           pick_boundary (at_pose cmp pk) wps pick_index \<and>
           place_boundary (at_pose cmp pl) wps place_index"
  using assms
proof (induction wps rule: rev_induct)
  case Nil
  then show ?case by (simp add: pick_boundary_def place_boundary_def)
next
  case (snoc q wps)
  then obtain a b where ab: "scan_waypoints cmp pk pl 0 wps (None, None) = Inr (a, b)"
    "pick_boundary (at_pose cmp pk) wps a" "place_boundary (at_pose cmp pl) wps b"
    by auto
  from snoc.prems have q: "comparable cmp pk pl q" by simp
  have "scan_waypoints cmp pk pl 0 (wps @ [q]) (None, None)
        = Inr (if at_pose cmp pk q then Some (length wps) else a,
               if \<not> at_pose cmp pl q then Some (length wps + 1) else b)"
    by (simp only: scan_waypoints_append ab(1) sum.case add_0 scan_waypoints_last [OF q] fst_conv snd_conv)
  with pick_boundary_snoc [OF ab(2), of q] place_boundary_snoc [OF ab(3), of q]
  show ?case by blast
qed

text \<open>
  C3. For every waypoint sequence on which the comparisons return, the scan sets
  \<open>pick_index\<close> to the last index whose target-pose slice matches the pick pose and
  \<open>place_index\<close> to one past the last index whose slice does not match the place
  pose (each stays \<open>None\<close> when there is no such index), and with both set the three
  slices are the waypoints of the index ranges \<open>[0, pick_index]\<close>,
  \<open>[pick_index, place_index]\<close> and \<open>[place_index, end]\<close>.
\<close>

theorem segmenter_boundaries_and_ranges:
  assumes "list_all (comparable cmp pose_pick pose_place) wps"
  shows "\<exists>pick_index place_index.
           scan_waypoints cmp pose_pick pose_place 0 wps (None, None) = Inr (pick_index, place_index) \<and>
           pick_boundary (at_pose cmp pose_pick) wps pick_index \<and>
           place_boundary (at_pose cmp pose_place) wps place_index \<and>
           (\<forall>p b. pick_index = Some p \<and> place_index = Some b \<longrightarrow>
              waypoint_ranges cmp pose_pick pose_place wps
                = Inr (take (p + 1) wps, drop p (take (b + 1) wps), drop b wps))"
proof -
  from scan_waypoints_boundaries [OF assms] obtain a b where
    "scan_waypoints cmp pose_pick pose_place 0 wps (None, None) = Inr (a, b)"
    "pick_boundary (at_pose cmp pose_pick) wps a" "place_boundary (at_pose cmp pose_place) wps b"
    by blast
  then show ?thesis by (auto simp: waypoint_ranges_def)
qed

theorem segmenter_boundaries_and_ranges_witness:
  "list_all (comparable (compare_configurations (1/10)) [1,1,1] [2,2,2])
     [[1,1,1], [1,1,1], [3/2,3/2,3/2], [2,2,2], [2,2,2]] \<and>
   scan_waypoints (compare_configurations (1/10)) [1,1,1] [2,2,2] 0
     [[1,1,1], [1,1,1], [3/2,3/2,3/2], [2,2,2], [2,2,2]] (None, None) = Inr (Some 1, Some 3) \<and>
   pick_boundary (at_pose (compare_configurations (1/10)) [1,1,1])
     [[1,1,1], [1,1,1], [3/2,3/2,3/2], [2,2,2], [2,2,2]] (Some 1) \<and>
   place_boundary (at_pose (compare_configurations (1/10)) [2,2,2])
     [[1,1,1], [1,1,1], [3/2,3/2,3/2], [2,2,2], [2,2,2]] (Some 3) \<and>
   waypoint_ranges (compare_configurations (1/10)) [1,1,1] [2,2,2]
     [[1,1,1], [1,1,1], [3/2,3/2,3/2], [2,2,2], [2,2,2]]
     = Inr ([[1,1,1], [1,1,1]], [[1,1,1], [3/2,3/2,3/2], [2,2,2]], [[2,2,2], [2,2,2]])"
  using segmenter_boundaries_and_ranges [of "compare_configurations (1/10)" "[1,1,1]" "[2,2,2]"
      "[[1,1,1], [1,1,1], [3/2,3/2,3/2], [2,2,2], [2,2,2]]"]
  by (simp add: comparable_def compare_configurations_def target_pos_def
      pick_boundary_def place_boundary_def at_pose_def)

text \<open>
  C4 (as amended). For five waypoints of which the first two match the pick pose
  only, the next two match neither pose and the last matches the place pose only, the
  scan ends with \<open>pick_index = 1\<close> and \<open>place_index = 4\<close>, and the slices are the
  waypoints of the ranges \<open>[0, 1]\<close>, \<open>[1, 4]\<close> and \<open>[4, 4]\<close>.
\<close>

theorem scenario_five_waypoints:
  assumes "cmp (target_pos w0) pose_pick = Inr True" "cmp (target_pos w0) pose_place = Inr False"
    and "cmp (target_pos w1) pose_pick = Inr True" "cmp (target_pos w1) pose_place = Inr False"
    and "cmp (target_pos w2) pose_pick = Inr False" "cmp (target_pos w2) pose_place = Inr False"
    and "cmp (target_pos w3) pose_pick = Inr False" "cmp (target_pos w3) pose_place = Inr False"
    and "cmp (target_pos w4) pose_pick = Inr False" "cmp (target_pos w4) pose_place = Inr True"
  shows "scan_waypoints cmp pose_pick pose_place 0 [w0, w1, w2, w3, w4] (None, None)
           = Inr (Some 1, Some 4) \<and>
         waypoint_ranges cmp pose_pick pose_place [w0, w1, w2, w3, w4]
           = Inr ([w0, w1], [w1, w2, w3, w4], [w4])"
  using assms by (simp add: waypoint_ranges_def)

theorem scenario_five_waypoints_witness:
  "waypoint_ranges (compare_configurations (1/10)) [1,1,1] [2,2,2]
     [[1,1,1], [1,1,1], [3/2,3/2,3/2], [3/2,3/2,3/2], [2,2,2]]
   = Inr ([[1,1,1], [1,1,1]],
          [[1,1,1], [3/2,3/2,3/2], [3/2,3/2,3/2], [2,2,2]],
          [[2,2,2]])"
  using scenario_five_waypoints [of "compare_configurations (1/10)" "[1,1,1]" "[1,1,1]" "[2,2,2]"
      "[1,1,1]" "[3/2,3/2,3/2]" "[3/2,3/2,3/2]" "[2,2,2]"]
  by (simp add: compare_configurations_def target_pos_def)

text \<open>
  The ranges that C4 states, \<open>[0, 1]\<close>, \<open>[1, 3]\<close> and \<open>[3, 4]\<close>, are not the
  slices computed for that sequence.
\<close>

theorem scenario_five_waypoints_claimed_ranges:
  "waypoint_ranges (compare_configurations (1/10)) [1,1,1] [2,2,2]
     [[1,1,1], [1,1,1], [3/2,3/2,3/2], [3/2,3/2,3/2], [2,2,2]]
   \<noteq> Inr ([[1,1,1], [1,1,1]],
           [[1,1,1], [3/2,3/2,3/2], [3/2,3/2,3/2]],
           [[3/2,3/2,3/2], [2,2,2]])"
  by (simp add: waypoint_ranges_def compare_configurations_def target_pos_def)

section \<open>Sub-paths need two waypoints\<close>

lemma create_path_short: "length waypoints \<le> 1 \<Longrightarrow> create_path ps waypoints s = Inl IndexError"
  by (cases waypoints; cases "tl waypoints") (auto simp: create_path_def)

lemma create_path_long:
  assumes "2 \<le> length waypoints"
  shows "\<exists>pathId s'. create_path ps waypoints s = Inr (pathId, s')"
proof -
  from assms obtain w0 w1 rest where "waypoints = w0 # w1 # rest"
    by (cases waypoints; cases "tl waypoints") auto
  then show ?thesis by (simp add: create_path_def split: prod.splits)
qed

lemma create_path_cases:
  "create_path ps waypoints s = Inl IndexError \<or> (\<exists>pathId s'. create_path ps waypoints s = Inr (pathId, s'))"
  using create_path_short [of waypoints ps s] create_path_long [of waypoints ps s]
  by (cases "length waypoints \<le> 1") auto

text \<open>
  C10. \<open>_create_path\<close> raises \<open>IndexError\<close> on every waypoint list of length 0
  or 1; so splitting the path raises \<open>IndexError\<close> whenever one of the three slices
  holds a single waypoint, and in particular whenever \<open>pick_index\<close> is 0.
\<close>

theorem create_path_needs_two_waypoints:
  "(length waypoints \<le> 1 \<longrightarrow> create_path ps waypoints s = Inl IndexError) \<and>
   (waypoint_ranges cmp pose_pick pose_place wps = Inr (pick_wps, place_wps, home_wps) \<and>
    (length pick_wps = 1 \<or> length place_wps = 1 \<or> length home_wps = 1) \<longrightarrow>
      split_path ps cmp pose_pick pose_place wps s = Inl IndexError) \<and>
   (scan_waypoints cmp pose_pick pose_place 0 wps (None, None) = Inr (Some 0, place_index) \<longrightarrow>
      split_path ps cmp pose_pick pose_place wps s = Inl IndexError)"
proof (intro conjI impI)
  assume "length waypoints \<le> 1"
  then show "create_path ps waypoints s = Inl IndexError" by (rule create_path_short)
next
  assume a: "waypoint_ranges cmp pose_pick pose_place wps = Inr (pick_wps, place_wps, home_wps) \<and>
    (length pick_wps = 1 \<or> length place_wps = 1 \<or> length home_wps = 1)"
  then obtain p b where pb: "scan_waypoints cmp pose_pick pose_place 0 wps (None, None) = Inr (Some p, Some b)"
    "pick_wps = take (p + 1) wps" "place_wps = drop p (take (b + 1) wps)" "home_wps = drop b wps"
    by (auto simp: waypoint_ranges_def split: sum.splits option.splits)
  from a consider "length pick_wps = 1" | "length place_wps = 1" | "length home_wps = 1" by blast
  then show "split_path ps cmp pose_pick pose_place wps s = Inl IndexError"
  proof cases
    case 1
    then have "create_path ps pick_wps s = Inl IndexError" by (simp add: create_path_short)
    with pb show ?thesis by (simp add: split_path_def)
  next
    case 2
    then have "\<And>s1. create_path ps place_wps s1 = Inl IndexError" by (simp add: create_path_short)
    with pb create_path_cases [of ps pick_wps s] show ?thesis
      by (auto simp: split_path_def)
  next
    case 3
    then have h: "\<And>s2. create_path ps home_wps s2 = Inl IndexError" by (simp add: create_path_short)
    from create_path_cases [of ps pick_wps s] show ?thesis
    proof
      assume "create_path ps pick_wps s = Inl IndexError"
      with pb show ?thesis by (simp add: split_path_def)
    next
      assume "\<exists>pathId s'. create_path ps pick_wps s = Inr (pathId, s')"
      then obtain i1 s1 where c1: "create_path ps pick_wps s = Inr (i1, s1)" by blast
      from create_path_cases [of ps place_wps s1] show ?thesis
      proof
        assume "create_path ps place_wps s1 = Inl IndexError"
        with pb c1 show ?thesis by (simp add: split_path_def)
      next
        assume "\<exists>pathId s'. create_path ps place_wps s1 = Inr (pathId, s')"
        then obtain i2 s2 where c2: "create_path ps place_wps s1 = Inr (i2, s2)" by blast
        with pb c1 h [of s2] show ?thesis by (simp add: split_path_def)
      qed
    qed
  qed
next
  assume a: "scan_waypoints cmp pose_pick pose_place 0 wps (None, None) = Inr (Some 0, place_index)"
  have "create_path ps (take (0 + 1) wps) s = Inl IndexError"
    by (rule create_path_short) simp
  with a show "split_path ps cmp pose_pick pose_place wps s = Inl IndexError"
    by (simp add: split_path_def)
qed

theorem create_path_needs_two_waypoints_witness:
  "length [[1,1,1 :: real]] \<le> 1 \<and>
   create_path (fixed_planner True True True) [[1,1,1]] \<lparr>draws = 0, paths = []\<rparr> = Inl IndexError \<and>
   waypoint_ranges (compare_configurations (1/10)) [1,1,1] [2,2,2]
     [[1,1,1], [3/2,3/2,3/2], [2,2,2], [2,2,2]]
     = Inr ([[1,1,1]], [[1,1,1], [3/2,3/2,3/2], [2,2,2]], [[2,2,2], [2,2,2]]) \<and>
   scan_waypoints (compare_configurations (1/10)) [1,1,1] [2,2,2] 0
     [[1,1,1], [3/2,3/2,3/2], [2,2,2], [2,2,2]] (None, None) = Inr (Some 0, Some 2) \<and>
   split_path (fixed_planner True True True) (compare_configurations (1/10)) [1,1,1] [2,2,2]
     [[1,1,1], [3/2,3/2,3/2], [2,2,2], [2,2,2]] \<lparr>draws = 0, paths = []\<rparr> = Inl IndexError"
  using create_path_needs_two_waypoints [of "[[1,1,1]]" "fixed_planner True True True"
      "\<lparr>draws = 0, paths = []\<rparr>" "compare_configurations (1/10)" "[1,1,1]" "[2,2,2]"
      "[[1,1,1], [3/2,3/2,3/2], [2,2,2], [2,2,2]]"
      "[[1,1,1]]" "[[1,1,1], [3/2,3/2,3/2], [2,2,2]]" "[[2,2,2], [2,2,2]]" "Some 2"]
  by (simp add: waypoint_ranges_def compare_configurations_def target_pos_def)

section \<open>A path that is at the place pose throughout\<close>

lemma scan_place_None:
  assumes "list_all (at_pose cmp pose_place) wps"
    and "scan_waypoints cmp pose_pick pose_place i wps (a, None) = Inr (a', b')"
  shows "b' = None"
  using assms
proof (induction wps arbitrary: i a)
  case Nil
  then show ?case by simp
next
  case (Cons q wps)
  from Cons.prems(1) have "at_pose cmp pose_place q"
    and rest: "list_all (at_pose cmp pose_place) wps"
    by simp_all
  then have q: "cmp (target_pos q) pose_place = Inr True"
    by (simp add: at_pose_def)
  from Cons.prems(2) q obtain c where
    "scan_waypoints cmp pose_pick pose_place (i + 1) wps (if c then Some i else a, None) = Inr (a', b')"
    by (auto split: sum.splits cong: if_cong)
  with Cons.IH [OF rest] show ?case by blast
qed

text \<open>
  Whenever every waypoint matches the place pose, \<open>place_index\<close> is still \<open>None\<close>
  after the scan and no split is returned.
\<close>

lemma all_at_place_fails:
  assumes "list_all (at_pose cmp pose_place) wps"
  shows "(\<exists>e. waypoint_ranges cmp pose_pick pose_place wps = Inl e) \<and>
         (\<exists>e. split_path ps cmp pose_pick pose_place wps s = Inl e) \<and>
         (list_all (comparable cmp pose_pick pose_place) wps \<longrightarrow>
            (\<exists>pick_index. scan_waypoints cmp pose_pick pose_place 0 wps (None, None)
                             = Inr (pick_index, None)) \<and>
            waypoint_ranges cmp pose_pick pose_place wps = Inl TypeError \<and>
            (split_path ps cmp pose_pick pose_place wps s = Inl TypeError \<or>
             split_path ps cmp pose_pick pose_place wps s = Inl IndexError))"
proof (intro conjI impI)
  show "\<exists>e. waypoint_ranges cmp pose_pick pose_place wps = Inl e"
    using scan_place_None [OF assms, of pose_pick 0 None]
    by (auto simp: waypoint_ranges_def split: sum.splits option.splits)
  show "\<exists>e. split_path ps cmp pose_pick pose_place wps s = Inl e"
    using scan_place_None [OF assms, of pose_pick 0 None]
    by (auto simp: split_path_def split: sum.splits option.splits)
next
  assume "list_all (comparable cmp pose_pick pose_place) wps"
  from scan_waypoints_boundaries [OF this] obtain a b where
    ab: "scan_waypoints cmp pose_pick pose_place 0 wps (None, None) = Inr (a, b)" by blast
  with scan_place_None [OF assms, of pose_pick 0 None] have b: "b = None" by blast
  with ab show "\<exists>pick_index. scan_waypoints cmp pose_pick pose_place 0 wps (None, None) = Inr (pick_index, None)"
    by blast
  from ab b show "waypoint_ranges cmp pose_pick pose_place wps = Inl TypeError"
    by (simp add: waypoint_ranges_def split: option.splits)
  from ab b create_path_cases [of ps "take (the a + 1) wps" s]
  show "split_path ps cmp pose_pick pose_place wps s = Inl TypeError \<or>
        split_path ps cmp pose_pick pose_place wps s = Inl IndexError"
    by (cases a) (auto simp: split_path_def)
qed

text \<open>
  C5. The code does not succeed on a sequence whose waypoints all match the place
  pose: for two waypoints that match both the pick pose and the place pose, the scan
  ends with \<open>pick_index = 1\<close> and \<open>place_index = None\<close>, and the slice
  \<open>wps[pick_index:place_index+1]\<close> raises \<open>TypeError\<close>. No place boundary at
  the full length and no empty home range are computed.
\<close>

theorem all_at_place_type_error:
  "list_all (at_pose (compare_configurations (1/10)) [1,1,1]) [[1,1,1], [1,1,1]] \<and>
   at_pose (compare_configurations (1/10)) [1,1,1] [1,1,1] \<and>
   scan_waypoints (compare_configurations (1/10)) [1,1,1] [1,1,1] 0 [[1,1,1], [1,1,1]] (None, None)
     = Inr (Some 1, None) \<and>
   split_path (fixed_planner True True True) (compare_configurations (1/10)) [1,1,1] [1,1,1]
     [[1,1,1], [1,1,1]] \<lparr>draws = 0, paths = []\<rparr> = Inl TypeError"
  by (simp add: at_pose_def split_path_def compare_configurations_def target_pos_def
      create_path_def fixed_planner_def)

section \<open>The goal candidates\<close>

lemma sample_once_no_path:
  assumes "\<forall>q1 q2 v s. \<not> fst (fst (directPath ps q1 q2 v s))"
  shows "fst (sample_once ps g q_init (q_goals, s)) = q_goals"
proof -
  obtain q s1 where a: "shootRandomConfig ps s = (q, s1)" by force
  obtain r1 q_pre s2 where b: "generateTargetConfig ps (g @ '' > target/handle | f_01'') q_init q s1 = ((r1, q_pre), s2)"
    by (metis surj_pair)
  obtain r2 q_grasp s3 where c: "generateTargetConfig ps (g @ '' > target/handle | f_12'') q_pre q_pre s2 = ((r2, q_grasp), s3)"
    by (metis surj_pair)
  obtain r3 pathId s4 where d: "directPath ps q_pre q_grasp True s3 = ((r3, pathId), s4)"
    by (metis surj_pair)
  from assms d have "\<not> r3" by (metis fst_conv)
  with a b c d show ?thesis by (simp add: sample_once_def)
qed

lemma fold_sample_once_no_path:
  assumes "\<forall>q1 q2 v s. \<not> fst (fst (directPath ps q1 q2 v s))"
  shows "fst (fold (\<lambda>_. sample_once ps g q_init) xs (q_goals, s)) = q_goals"
proof (induction xs arbitrary: s)
  case Nil
  then show ?case by simp
next
  case (Cons x xs)
  obtain s' where "sample_once ps g q_init (q_goals, s) = (q_goals, s')"
    using sample_once_no_path [OF assms, of g q_init q_goals s]
    by (cases "sample_once ps g q_init (q_goals, s)") simp
  with Cons.IH [of s'] show ?case by simp
qed

text \<open>
  C6 (as amended). The sampling of \<open>make_gripper_approach\<close> fails with the
  assertion ``No goal configuration found'' exactly when none of its hundred draws is
  accepted; in particular it fails so whenever the direct-connection check fails on
  every draw. An empty pool is never returned.
\<close>

theorem empty_pool_raises:
  "(goal_candidates ps g q_init s = Inl (AssertionError NoGoalConfiguration)
      \<longleftrightarrow> fst (sample_loop ps g q_init 100 s) = []) \<and>
   ((\<forall>q1 q2 v s'. \<not> fst (fst (directPath ps q1 q2 v s'))) \<longrightarrow>
      goal_candidates ps g q_init s = Inl (AssertionError NoGoalConfiguration))"
proof
  show iff: "goal_candidates ps g q_init s = Inl (AssertionError NoGoalConfiguration)
      \<longleftrightarrow> fst (sample_loop ps g q_init 100 s) = []"
    by (simp add: goal_candidates_def split: prod.splits)
  show "(\<forall>q1 q2 v s'. \<not> fst (fst (directPath ps q1 q2 v s'))) \<longrightarrow>
      goal_candidates ps g q_init s = Inl (AssertionError NoGoalConfiguration)"
  proof
    assume "\<forall>q1 q2 v s'. \<not> fst (fst (directPath ps q1 q2 v s'))"
    then have "fst (sample_loop ps g q_init 100 s) = []"
      unfolding sample_loop_def by (rule fold_sample_once_no_path)
    with iff show "goal_candidates ps g q_init s = Inl (AssertionError NoGoalConfiguration)"
      by simp
  qed
qed

theorem empty_pool_raises_witness:
  "(\<forall>q1 q2 v s'. \<not> fst (fst (directPath (fixed_planner True True False) q1 q2 v s'))) \<and>
   fst (sample_loop (fixed_planner True True False) ''robot/g'' [] 100 \<lparr>draws = 0, paths = []\<rparr>) = [] \<and>
   goal_candidates (fixed_planner True True False) ''robot/g'' [] \<lparr>draws = 0, paths = []\<rparr>
     = Inl (AssertionError NoGoalConfiguration)"
proof -
  have h: "\<forall>q1 q2 v s'. \<not> fst (fst (directPath (fixed_planner True True False) q1 q2 v s'))"
    by (simp add: fixed_planner_def)
  from empty_pool_raises [of "fixed_planner True True False" "''robot/g''" "[]" "\<lparr>draws = 0, paths = []\<rparr>"] h
  show ?thesis by blast
qed

text \<open>
  C6 as stated fails: with both projections succeeding and the direct-connection check
  failing on every draw, the result is not an empty pool but an assertion error.
\<close>

theorem empty_pool_is_an_error:
  "goal_candidates (fixed_planner True True False) ''robot/g'' [0, 0] \<lparr>draws = 0, paths = []\<rparr>
     = Inl (AssertionError NoGoalConfiguration)"
  by code_simp

lemma sample_once_counts:
  assumes "counts_draws ps cnt"
  shows "cnt (snd (sample_once ps g q_init (q_goals, s))) = cnt s + 1"
proof -
  obtain q s1 where a: "shootRandomConfig ps s = (q, s1)" by force
  obtain r1 q_pre s2 where b: "generateTargetConfig ps (g @ '' > target/handle | f_01'') q_init q s1 = ((r1, q_pre), s2)"
    by (metis surj_pair)
  obtain r2 q_grasp s3 where c: "generateTargetConfig ps (g @ '' > target/handle | f_12'') q_pre q_pre s2 = ((r2, q_grasp), s3)"
    by (metis surj_pair)
  obtain r3 pathId s4 where d: "directPath ps q_pre q_grasp True s3 = ((r3, pathId), s4)"
    by (metis surj_pair)
  from assms a have 1: "cnt s1 = cnt s + 1" unfolding counts_draws_def by (metis snd_conv)
  from assms b have 2: "cnt s2 = cnt s1" unfolding counts_draws_def by (metis snd_conv)
  from assms c have 3: "cnt s3 = cnt s2" unfolding counts_draws_def by (metis snd_conv)
  from assms d have 4: "cnt s4 = cnt s3" unfolding counts_draws_def by (metis snd_conv)
  from assms have 5: "cnt (erasePath ps pathId s4) = cnt s4" unfolding counts_draws_def by blast
  from a b c d 1 2 3 4 5 show ?thesis by (simp add: sample_once_def)
qed

lemma sample_once_pool:
  "length (fst (sample_once ps g q_init (q_goals, s))) \<le> length q_goals + 1"
  by (auto simp: sample_once_def split: prod.splits)

lemma fold_sample_once_counts:
  assumes "counts_draws ps cnt"
  shows "cnt (snd (fold (\<lambda>_. sample_once ps g q_init) xs (q_goals, s))) = cnt s + length xs"
proof (induction xs arbitrary: q_goals s)
  case Nil
  then show ?case by simp
next
  case (Cons x xs)
  obtain g' s' where st: "sample_once ps g q_init (q_goals, s) = (g', s')" by force
  with sample_once_counts [OF assms, of g q_init q_goals s] have "cnt s' = cnt s + 1" by simp
  with Cons.IH [of g' s'] st show ?case by simp
qed

lemma fold_sample_once_pool:
  "length (fst (fold (\<lambda>_. sample_once ps g q_init) xs (q_goals, s))) \<le> length q_goals + length xs"
proof (induction xs arbitrary: q_goals s)
  case Nil
  then show ?case by simp
next
  case (Cons x xs)
  obtain g' s' where st: "sample_once ps g q_init (q_goals, s) = (g', s')" by force
  with sample_once_pool [of ps g q_init q_goals s] have "length g' \<le> length q_goals + 1" by simp
  with Cons.IH [of g' s'] st show ?case by simp
qed

text \<open>
  C7 (as amended). In every run the sampling loop makes exactly a hundred random
  draws, whatever number of pairs it has accepted on the way; the pool holds at most a
  hundred pairs, and there is no acceptance target at which the loop stops.
\<close>

theorem hundred_draws:
  assumes "counts_draws ps cnt"
  shows "cnt (snd (sample_loop ps g q_init 100 s)) = cnt s + 100 \<and>
         length (fst (sample_loop ps g q_init 100 s)) \<le> 100 \<and>
         (\<forall>q_goals s'. goal_candidates ps g q_init s = Inr (q_goals, s') \<longrightarrow>
            cnt s' = cnt s + 100 \<and> 0 < length q_goals \<and> length q_goals \<le> 100)"
proof -
  have a: "cnt (snd (sample_loop ps g q_init 100 s)) = cnt s + 100"
    unfolding sample_loop_def using fold_sample_once_counts [OF assms, of g q_init "[0 ..< 100]" "[]" s]
    by simp
  have b: "length (fst (sample_loop ps g q_init 100 s)) \<le> 100"
    unfolding sample_loop_def using fold_sample_once_pool [of ps g q_init "[0 ..< 100]" "[]" s]
    by simp
  from a b show ?thesis
    by (auto simp: goal_candidates_def split: prod.splits if_splits)
qed

theorem hundred_draws_witness:
  "counts_draws (fixed_planner True False True) draws \<and>
   draws (snd (sample_loop (fixed_planner True False True) ''robot/g'' [] 100 \<lparr>draws = 0, paths = []\<rparr>)) = 100 \<and>
   length (fst (sample_loop (fixed_planner True False True) ''robot/g'' [] 100 \<lparr>draws = 0, paths = []\<rparr>)) \<le> 100"
proof -
  have h: "counts_draws (fixed_planner True False True) draws"
    by (simp add: counts_draws_def fixed_planner_def)
  from hundred_draws [OF h, of "''robot/g''" "[]" "\<lparr>draws = 0, paths = []\<rparr>"] h
  show ?thesis by simp
qed

text \<open>
  C7 as stated fails: with every draw accepted, one pair is in the pool after the
  first draw, and the loop still makes its hundred draws and accepts a hundred pairs.
\<close>

theorem draws_continue_after_acceptance:
  "length (fst (sample_loop (fixed_planner True True True) ''robot/g'' [] 1 \<lparr>draws = 0, paths = []\<rparr>)) = 1 \<and>
   draws (snd (sample_loop (fixed_planner True True True) ''robot/g'' [] 100 \<lparr>draws = 0, paths = []\<rparr>)) = 100 \<and>
   length (fst (sample_loop (fixed_planner True True True) ''robot/g'' [] 100 \<lparr>draws = 0, paths = []\<rparr>)) = 100"
  by code_simp

section \<open>Raw measurements\<close>

lemma pick_by_error: "pick_by table x is = Inl e \<Longrightarrow> e = IndexError"
  by (induction "is" arbitrary: e) (auto split: if_splits sum.splits)

lemma pick_by_ok:
  "\<forall>i\<in>set is. i < length table \<and> table ! i < length x \<Longrightarrow>
   pick_by table x is = Inr (map (\<lambda>i. x ! (table ! i)) is)"
  by (induction "is") auto

lemma rearrange_error: "rearrange table x = Inl e \<Longrightarrow> e = IndexError"
  unfolding rearrange_def by (rule pick_by_error)

lemma rearrange_ok:
  "length x \<le> length table \<Longrightarrow> \<forall>i<length x. table ! i < length x \<Longrightarrow>
   rearrange table x = Inr (map (\<lambda>i. x ! (table ! i)) [0 ..< length x])"
  unfolding rearrange_def by (rule pick_by_ok) auto

lemma rearrange_ros_to_pin_error: "rearrange_ros_to_pin r q v tau = Inl e \<Longrightarrow> e = IndexError"
  by (auto simp: rearrange_ros_to_pin_def split: sum.splits dest: rearrange_error)

text \<open>
  C9. With \<open>raw=True\<close>, \<open>get_meas_qvtau\<close> returns what the reordering returns and
  nothing else: the result is that of \<open>_rearrange_ros_to_pin\<close>, it is never the
  out-of-bounds assertion (nor the error of its message), it does not depend on the
  joint limits, and with tables that fit the sample it is the reordered position,
  velocity and effort, unchanged.
\<close>

theorem raw_measurement_unchanged:
  "get_meas_qvtau float_sub r True js = rearrange_ros_to_pin r (position js) (velocity js) (effort js) \<and>
   get_meas_qvtau float_sub r True js \<noteq> Inl (AssertionError a) \<and>
   get_meas_qvtau float_sub r True js \<noteq> Inl AttributeError \<and>
   get_meas_qvtau float_sub (r\<lparr>lowerPositionLimit := lo, upperPositionLimit := up\<rparr>) True js = get_meas_qvtau float_sub r True js \<and>
   (valid_table (q_pin_to_ros r) (position js) \<and> valid_table (v_pin_to_ros r) (velocity js) \<and>
    valid_table (v_pin_to_ros r) (effort js) \<longrightarrow>
      get_meas_qvtau float_sub r True js =
        Inr (map (\<lambda>i. position js ! (q_pin_to_ros r ! i)) [0 ..< length (position js)],
             map (\<lambda>i. velocity js ! (v_pin_to_ros r ! i)) [0 ..< length (velocity js)],
             map (\<lambda>i. effort js ! (v_pin_to_ros r ! i)) [0 ..< length (effort js)]))"
proof -
  have raw: "get_meas_qvtau float_sub r' True js = rearrange_ros_to_pin r' (position js) (velocity js) (effort js)" for r'
    by (simp add: get_meas_qvtau_def split: sum.splits)
  have lim: "rearrange_ros_to_pin (r\<lparr>lowerPositionLimit := lo, upperPositionLimit := up\<rparr>) q v tau
             = rearrange_ros_to_pin r q v tau" for q v tau
    by (simp add: rearrange_ros_to_pin_def cong: sum.case_cong)
  have ok: "get_meas_qvtau float_sub r True js =
        Inr (map (\<lambda>i. position js ! (q_pin_to_ros r ! i)) [0 ..< length (position js)],
             map (\<lambda>i. velocity js ! (v_pin_to_ros r ! i)) [0 ..< length (velocity js)],
             map (\<lambda>i. effort js ! (v_pin_to_ros r ! i)) [0 ..< length (effort js)])"
    if "valid_table (q_pin_to_ros r) (position js)" "valid_table (v_pin_to_ros r) (velocity js)"
       "valid_table (v_pin_to_ros r) (effort js)"
    using that unfolding raw rearrange_ros_to_pin_def valid_table_def list_all_iff
    by (simp add: rearrange_ok)
  from raw [of r] rearrange_ros_to_pin_error [of r "position js" "velocity js" "effort js"]
  have "get_meas_qvtau float_sub r True js \<noteq> Inl (AssertionError a)" "get_meas_qvtau float_sub r True js \<noteq> Inl AttributeError"
    by auto
  with raw lim ok show ?thesis by simp
qed

text \<open>A position a hundred times the upper limit is returned as it is.\<close>

theorem raw_measurement_unchanged_witness:
  "valid_table (q_pin_to_ros unit_robot) [100 :: real] \<and>
   valid_table (v_pin_to_ros unit_robot) [7 :: real] \<and>
   valid_table (v_pin_to_ros unit_robot) [-3 :: real] \<and>
   get_meas_qvtau (-) unit_robot True \<lparr>position = [100], velocity = [7], effort = [-3]\<rparr>
     = Inr ([100], [7], [-3])"
proof -
  let ?r = unit_robot
  let ?js = "\<lparr>position = [100], velocity = [7], effort = [-3]\<rparr>"
  have v: "valid_table (q_pin_to_ros ?r) [100 :: real]"
    "valid_table (v_pin_to_ros ?r) [7 :: real]"
    "valid_table (v_pin_to_ros ?r) [-3 :: real]"
    by (simp_all add: unit_robot_def valid_table_def)
  then have v': "valid_table (q_pin_to_ros ?r) (position ?js) \<and>
    valid_table (v_pin_to_ros ?r) (velocity ?js) \<and> valid_table (v_pin_to_ros ?r) (effort ?js)"
    by simp
  from raw_measurement_unchanged [of "(-)" ?r ?js NoGoalConfiguration "[]" "[]"] v'
  have "get_meas_qvtau (-) ?r True ?js =
        Inr (map (\<lambda>i. position ?js ! (q_pin_to_ros ?r ! i)) [0 ..< length (position ?js)],
             map (\<lambda>i. velocity ?js ! (v_pin_to_ros ?r ! i)) [0 ..< length (velocity ?js)],
             map (\<lambda>i. effort ?js ! (v_pin_to_ros ?r ! i)) [0 ..< length (effort ?js)])"
    by blast
  then have "get_meas_qvtau (-) ?r True ?js = Inr ([100], [7], [-3])"
    by (simp add: unit_robot_def)
  with v show ?thesis by simp
qed


section \<open>The bounds check of the measured configuration\<close>

lemma clamp_from_error:
  "clamp_from float_sub r i q = Inl e \<Longrightarrow> e = IndexError \<or> e = AttributeError"
  by (induction q arbitrary: i e) (auto simp: Let_def split: if_splits sum.splits)

lemma get_meas_qvtau_error:
  "get_meas_qvtau float_sub r raw js = Inl e \<Longrightarrow> e = IndexError \<or> e = AttributeError"
  by (auto simp: get_meas_qvtau_def split: sum.splits if_splits
      dest: clamp_from_error rearrange_ros_to_pin_error)

lemma clamp_from_offender:
  assumes "i + length q \<le> length (lowerPositionLimit r)"
    and "i + length q \<le> length (upperPositionLimit r)"
    and "k < length q"
    and "double_1e_3 \<le> \<bar>float_sub (clamped r (i + k) (q ! k)) (q ! k)\<bar>"
  shows "clamp_from float_sub r i q = Inl AttributeError"
  using assms
proof (induction q arbitrary: i k)
  case Nil
  then show ?case by simp
next
  case (Cons x xs)
  from Cons.prems(1,2) have b: "i < length (lowerPositionLimit r)" "i < length (upperPositionLimit r)"
    by simp_all
  show ?case
  proof (cases "\<bar>float_sub (clamped r i x) x\<bar> < double_1e_3")
    case False
    with b show ?thesis by (simp add: clamped_def Let_def)
  next
    case True
    with Cons.prems(4) have "k \<noteq> 0" by (cases k) auto
    then obtain j where k: "k = Suc j" by (cases k) auto
    have 1: "i + 1 + length xs \<le> length (lowerPositionLimit r)"
      and 2: "i + 1 + length xs \<le> length (upperPositionLimit r)"
      using Cons.prems(1,2) by simp_all
    have 3: "j < length xs" using Cons.prems(3) k by simp
    have 4: "double_1e_3 \<le> \<bar>float_sub (clamped r (i + 1 + j) (xs ! j)) (xs ! j)\<bar>"
      using Cons.prems(4) k by simp
    from Cons.IH [OF 1 2 3 4] True b show ?thesis by (simp add: clamped_def Let_def)
  qed
qed

text \<open>
  C8. The code raises no out-of-bounds error that identifies a joint. Whenever the
  reordering of a sample succeeds, the limits cover the configuration and the clamp
  \<open>min(max(q[i], lower[i]), upper[i])\<close> moves some scalar \<open>q[i]\<close> so far that the
  assertion \<open>abs(pos - q[i]) < 1e-3\<close> fails, the call with \<open>raw\<close> unset raises
  \<open>AttributeError\<close>, from the message of the assertion; and no call, whatever its
  arguments, raises the assertion itself.
\<close>

theorem failed_bounds_check_raises_attribute_error:
  assumes "rearrange_ros_to_pin r (position js) (velocity js) (effort js) = Inr (q, v, tau)"
    and "length q \<le> length (lowerPositionLimit r)"
    and "length q \<le> length (upperPositionLimit r)"
    and "i < length q"
    and "double_1e_3 \<le> \<bar>float_sub (clamped r i (q ! i)) (q ! i)\<bar>"
  shows "get_meas_qvtau float_sub r False js = Inl AttributeError \<and>
         get_meas_qvtau float_sub r raw' js' \<noteq> Inl (AssertionError a)"
proof -
  from clamp_from_offender [of 0 q r i float_sub] assms(2-5)
  have "clamp_from float_sub r 0 q = Inl AttributeError" by simp
  with assms(1) have "get_meas_qvtau float_sub r False js = Inl AttributeError"
    by (simp add: get_meas_qvtau_def)
  with get_meas_qvtau_error [of float_sub r raw' js' "AssertionError a"] show ?thesis
    by auto
qed

text \<open>
  The reading \<open>1.1\<close> against the bounds \<open>[0, 1]\<close>: the double that \<open>1.1\<close>
  denotes is \<open>2476979795053773 / 2 ^ 51\<close>, and its difference from \<open>1\<close> is
  a double, so the subtraction of the doubles is the subtraction of the reals here.
\<close>

theorem failed_bounds_check_raises_attribute_error_witness:
  "rearrange_ros_to_pin unit_robot [2476979795053773 / 2251799813685248] [0] [0]
     = Inr ([2476979795053773 / 2251799813685248], [0], [0]) \<and>
   length [2476979795053773 / 2251799813685248 :: real] \<le> length (lowerPositionLimit unit_robot) \<and>
   length [2476979795053773 / 2251799813685248 :: real] \<le> length (upperPositionLimit unit_robot) \<and>
   clamped unit_robot 0 (2476979795053773 / 2251799813685248) = 1 \<and>
   double_1e_3 \<le> \<bar>1 - 2476979795053773 / 2251799813685248 :: real\<bar> \<and>
   get_meas_qvtau (-) unit_robot False
       \<lparr>position = [2476979795053773 / 2251799813685248], velocity = [0], effort = [0]\<rparr>
     = Inl AttributeError"
proof -
  let ?x = "2476979795053773 / 2251799813685248 :: real"
  let ?js = "\<lparr>position = [?x], velocity = [0], effort = [0]\<rparr>"
  have h1: "rearrange_ros_to_pin unit_robot (position ?js) (velocity ?js) (effort ?js) = Inr ([?x], [0], [0])"
    by (simp add: rearrange_ros_to_pin_def rearrange_def unit_robot_def)
  have h2: "length [?x] \<le> length (lowerPositionLimit unit_robot)"
    and h3: "length [?x] \<le> length (upperPositionLimit unit_robot)"
    by (simp_all add: unit_robot_def)
  have h4: "(0 :: nat) < length [?x]" by simp
  have c: "clamped unit_robot 0 ?x = 1"
    by (simp add: clamped_def unit_robot_def)
  have d: "double_1e_3 \<le> \<bar>1 - ?x\<bar>"
    by (simp add: double_1e_3_def)
  from c d have h5: "double_1e_3 \<le> \<bar>clamped unit_robot 0 ([?x] ! 0) - [?x] ! 0\<bar>"
    by simp
  from failed_bounds_check_raises_attribute_error [OF h1 h2 h3 h4, of "(-)", OF h5]
  have "get_meas_qvtau (-) unit_robot False ?js = Inl AttributeError" by blast
  with h1 h2 h3 c d show ?thesis by simp
qed

end
